theory Spec2Isabelle
  imports Main
begin

section \<open>Data model\<close>

text \<open>
  A tweet as \<^verbatim>\<open>models/Tweet.js\<close> declares it, with the \<^verbatim>\<open>createdAt\<close> of
  \<^verbatim>\<open>timestamps: true\<close>. An ObjectId is a number here. The fields \<^verbatim>\<open>_id\<close>, \<^verbatim>\<open>user\<close>,
  \<^verbatim>\<open>likes\<close> and \<^verbatim>\<open>retweets\<close> carry a prefix, since a tweet and a user both have them;
  \<^verbatim>\<open>updatedAt\<close> is left out, no route reads it.
\<close>

type_synonym oid = nat

record tweet =
  t_id :: oid
  content :: string
  t_user :: oid
  image :: string
  t_likes :: "oid list"
  t_retweets :: "oid list"
  retweetData :: "oid option"
  replyTo :: "oid option"
  pinned :: bool
  createdAt :: nat

text \<open>
  Modelled from the spec: the schema of a user, \<^verbatim>\<open>models/User.js\<close>, is not among the
  sources. The fields are the identity and the four ordered id lists of the
  specification's data model, under the names the routes read and write them by
  (\<^verbatim>\<open>following\<close>, \<^verbatim>\<open>followers\<close>, \<^verbatim>\<open>likes\<close>, \<^verbatim>\<open>retweets\<close>); the profile fields, the email
  and the password are left out.
\<close>

record user =
  u_id :: oid
  name :: string
  username :: string
  following :: "oid list"
  followers :: "oid list"
  u_likes :: "oid list"
  u_retweets :: "oid list"

text \<open>
  The document store: both collections in storage order, and the number of write
  commands it has acknowledged (\<^verbatim>\<open>save\<close>, \<^verbatim>\<open>findByIdAndUpdate\<close>).
\<close>

record store =
  tweets :: "tweet list"
  users :: "user list"
  writes :: nat

text \<open>
  The failures of a route, by the response it sends: 404 is \<open>NotFound\<close>; 400 with
  "already liked", "has not been liked", "already following", ... is \<open>Conflict\<close>; 400
  with "You cannot follow yourself" / "You cannot unfollow yourself" is
  \<open>InvalidOperation\<close>; an exception that reaches the route's \<^verbatim>\<open>catch\<close> is answered 500
  "Server error", \<open>ServerError\<close>.
\<close>

datatype error = NotFound | Conflict | InvalidOperation | ServerError

type_synonym 'a result = "error + 'a"

section \<open>Store operations\<close>

definition findTweetById :: "store \<Rightarrow> oid \<Rightarrow> tweet option" where
  "findTweetById st i = find (\<lambda>t. t_id t = i) (tweets st)"

definition findUserById :: "store \<Rightarrow> oid \<Rightarrow> user option" where
  "findUserById st i = find (\<lambda>u. u_id u = i) (users st)"

definition findUserByUsername :: "store \<Rightarrow> string \<Rightarrow> user option" where
  "findUserByUsername st n = find (\<lambda>u. username u = n) (users st)"

text \<open>A write to one document: the first one the filter selects, if any.\<close>

fun updateFirst :: "('a \<Rightarrow> bool) \<Rightarrow> ('a \<Rightarrow> 'a) \<Rightarrow> 'a list \<Rightarrow> 'a list" where
  "updateFirst p f [] = []"
| "updateFirst p f (x # xs) = (if p x then f x # xs else x # updateFirst p f xs)"

text \<open>\<^verbatim>\<open>tweet.save()\<close> of a document read from the store.\<close>

definition saveTweet :: "store \<Rightarrow> tweet \<Rightarrow> store" where
  "saveTweet st t =
     st\<lparr>tweets := updateFirst (\<lambda>x. t_id x = t_id t) (\<lambda>_. t) (tweets st),
        writes := Suc (writes st)\<rparr>"

text \<open>\<^verbatim>\<open>User.findByIdAndUpdate(id, update)\<close>.\<close>

definition findByIdAndUpdate :: "store \<Rightarrow> oid \<Rightarrow> (user \<Rightarrow> user) \<Rightarrow> store" where
  "findByIdAndUpdate st i f =
     st\<lparr>users := updateFirst (\<lambda>u. u_id u = i) f (users st),
        writes := Suc (writes st)\<rparr>"

text \<open>The update operators: \<^verbatim>\<open>$push\<close> appends, \<^verbatim>\<open>$pull\<close> removes every occurrence.\<close>

definition push :: "oid \<Rightarrow> oid list \<Rightarrow> oid list" where
  "push x xs = xs @ [x]"

definition pull :: "oid \<Rightarrow> oid list \<Rightarrow> oid list" where
  "pull x xs = filter (\<lambda>y. y \<noteq> x) xs"

text \<open>\<^verbatim>\<open>Tweet.countDocuments({ replyTo: id })\<close>.\<close>

definition countReplies :: "store \<Rightarrow> oid \<Rightarrow> nat" where
  "countReplies st i = length (filter (\<lambda>t. replyTo t = Some i) (tweets st))"

section \<open>Social actions\<close>

text \<open>
  Each route returns its response and the store it leaves. The viewer is
  \<^verbatim>\<open>req.user\<close>, the document the authentication middleware attached to the request.
\<close>

definition like :: "store \<Rightarrow> user \<Rightarrow> oid \<Rightarrow> string result \<times> store" where
  "like st viewer i =
     (case findTweetById st i of
        None \<Rightarrow> (Inl NotFound, st)
      | Some tw \<Rightarrow>
          if u_id viewer \<in> set (t_likes tw) then (Inl Conflict, st)
          else
            let st1 = saveTweet st (tw\<lparr>t_likes := u_id viewer # t_likes tw\<rparr>);
                st2 = findByIdAndUpdate st1 (u_id viewer)
                        (\<lambda>u. u\<lparr>u_likes := push (t_id tw) (u_likes u)\<rparr>)
            in (Inr ''Tweet liked'', st2))"

definition unlike :: "store \<Rightarrow> user \<Rightarrow> oid \<Rightarrow> string result \<times> store" where
  "unlike st viewer i =
     (case findTweetById st i of
        None \<Rightarrow> (Inl NotFound, st)
      | Some tw \<Rightarrow>
          if \<not> u_id viewer \<in> set (t_likes tw) then (Inl Conflict, st)
          else
            let st1 = saveTweet st
                        (tw\<lparr>t_likes := filter (\<lambda>l. l \<noteq> u_id viewer) (t_likes tw)\<rparr>);
                st2 = findByIdAndUpdate st1 (u_id viewer)
                        (\<lambda>u. u\<lparr>u_likes := pull (t_id tw) (u_likes u)\<rparr>)
            in (Inr ''Tweet unliked'', st2))"

definition retweet :: "store \<Rightarrow> user \<Rightarrow> oid \<Rightarrow> string result \<times> store" where
  "retweet st viewer i =
     (case findTweetById st i of
        None \<Rightarrow> (Inl NotFound, st)
      | Some tw \<Rightarrow>
          if u_id viewer \<in> set (t_retweets tw) then (Inl Conflict, st)
          else
            let st1 = saveTweet st (tw\<lparr>t_retweets := u_id viewer # t_retweets tw\<rparr>);
                st2 = findByIdAndUpdate st1 (u_id viewer)
                        (\<lambda>u. u\<lparr>u_retweets := push (t_id tw) (u_retweets u)\<rparr>)
            in (Inr ''Tweet retweeted'', st2))"

definition unretweet :: "store \<Rightarrow> user \<Rightarrow> oid \<Rightarrow> string result \<times> store" where
  "unretweet st viewer i =
     (case findTweetById st i of
        None \<Rightarrow> (Inl NotFound, st)
      | Some tw \<Rightarrow>
          if \<not> u_id viewer \<in> set (t_retweets tw) then (Inl Conflict, st)
          else
            let st1 = saveTweet st
                        (tw\<lparr>t_retweets := filter (\<lambda>r. r \<noteq> u_id viewer) (t_retweets tw)\<rparr>);
                st2 = findByIdAndUpdate st1 (u_id viewer)
                        (\<lambda>u. u\<lparr>u_retweets := pull (t_id tw) (u_retweets u)\<rparr>)
            in (Inr ''Tweet unretweeted'', st2))"

text \<open>
  The follow routes take the target from the path, \<^verbatim>\<open>req.params.id\<close>, a string, and
  compare it with \<^verbatim>\<open>req.user.id\<close>, the viewer's id as 24 lower-case hexadecimal digits.
  \<^verbatim>\<open>User.findById\<close> and the update operators cast the string to an ObjectId, whatever
  the case of its letters; a string that is no ObjectId makes the cast throw, which the
  route answers with 500.
\<close>

definition hexDigit :: "nat \<Rightarrow> char" where
  "hexDigit n = ''0123456789abcdef'' ! (n mod 16)"

definition hexValue :: "char \<Rightarrow> nat option" where
  "hexValue c =
     (let n = (of_char c :: nat)
      in if 48 \<le> n \<and> n \<le> 57 then Some (n - 48)
         else if 97 \<le> n \<and> n \<le> 102 then Some (n - 87)
         else if 65 \<le> n \<and> n \<le> 70 then Some (n - 55)
         else None)"

fun hexDigits :: "nat \<Rightarrow> nat \<Rightarrow> string" where
  "hexDigits 0 i = []"
| "hexDigits (Suc k) i = hexDigits k (i div 16) @ [hexDigit i]"

definition idString :: "oid \<Rightarrow> string" where
  "idString i = hexDigits 24 i"

fun hexNumber :: "nat \<Rightarrow> string \<Rightarrow> nat option" where
  "hexNumber acc [] = Some acc"
| "hexNumber acc (c # cs) =
     (case hexValue c of None \<Rightarrow> None | Some d \<Rightarrow> hexNumber (16 * acc + d) cs)"

definition castId :: "string \<Rightarrow> oid option" where
  "castId s = (if length s = 24 then hexNumber 0 s else None)"

text \<open>
  \<^verbatim>\<open>req.user.following.includes(req.params.id)\<close> is a method of the library's array of
  ObjectIds. For a string that spells the id of an element in lower case it answers
  true, for a string that spells the id of no element false. Whether a string that
  spells the id of an element with upper-case letters counts is left to the parameter
  \<open>anySpelling\<close>, so that what is proved holds of either behaviour.
\<close>

definition includesParam :: "bool \<Rightarrow> oid list \<Rightarrow> string \<Rightarrow> bool" where
  "includesParam anySpelling xs p =
     (case castId p of
        None \<Rightarrow> False
      | Some i \<Rightarrow> i \<in> set xs \<and> (anySpelling \<or> p = idString i))"

definition follow :: "bool \<Rightarrow> store \<Rightarrow> user \<Rightarrow> string \<Rightarrow> string result \<times> store" where
  "follow anySpelling st viewer p =
     (if p = idString (u_id viewer) then (Inl InvalidOperation, st)
      else
        case castId p of
          None \<Rightarrow> (Inl ServerError, st)
        | Some i \<Rightarrow>
            (case findUserById st i of
               None \<Rightarrow> (Inl NotFound, st)
             | Some userToFollow \<Rightarrow>
                 if includesParam anySpelling (following viewer) p then (Inl Conflict, st)
                 else
                   let st1 = findByIdAndUpdate st (u_id viewer)
                               (\<lambda>u. u\<lparr>following := push i (following u)\<rparr>);
                       st2 = findByIdAndUpdate st1 i
                               (\<lambda>u. u\<lparr>followers := push (u_id viewer) (followers u)\<rparr>)
                   in (Inr ''User followed successfully'', st2)))"

definition unfollow :: "bool \<Rightarrow> store \<Rightarrow> user \<Rightarrow> string \<Rightarrow> string result \<times> store" where
  "unfollow anySpelling st viewer p =
     (if p = idString (u_id viewer) then (Inl InvalidOperation, st)
      else
        case castId p of
          None \<Rightarrow> (Inl ServerError, st)
        | Some i \<Rightarrow>
            (case findUserById st i of
               None \<Rightarrow> (Inl NotFound, st)
             | Some userToUnfollow \<Rightarrow>
                 if \<not> includesParam anySpelling (following viewer) p then (Inl Conflict, st)
                 else
                   let st1 = findByIdAndUpdate st (u_id viewer)
                               (\<lambda>u. u\<lparr>following := pull i (following u)\<rparr>);
                       st2 = findByIdAndUpdate st1 i
                               (\<lambda>u. u\<lparr>followers := pull (u_id viewer) (followers u)\<rparr>)
                   in (Inr ''User unfollowed successfully'', st2)))"

section \<open>Feed: query parameters and the store's query operators\<close>

text \<open>
  The query string of \<^verbatim>\<open>GET /api/tweets\<close>. A parameter that is absent is \<open>None\<close>;
  \<^verbatim>\<open>replyToId\<close> is a well-formed ObjectId when present, \<^verbatim>\<open>page\<close> and \<^verbatim>\<open>limit\<close> are
  integers when present.
\<close>

record feed_query =
  q_username :: "string option"
  q_query :: "string option"
  q_type :: "string option"
  q_replyToId :: "oid option"
  q_page :: "int option"
  q_limit :: "int option"

text \<open>JavaScript truthiness of a string parameter: absent and empty are falsy.\<close>

definition given :: "string option \<Rightarrow> string option" where
  "given v = (case v of None \<Rightarrow> None | Some s \<Rightarrow> if s = [] then None else Some s)"

definition andThen :: "'a result \<Rightarrow> ('a \<Rightarrow> 'b result) \<Rightarrow> 'b result" where
  "andThen r f = (case r of Inl e \<Rightarrow> Inl e | Inr x \<Rightarrow> f x)"

text \<open>
  The store's \<^verbatim>\<open>$regex\<close> operator with option \<^verbatim>\<open>i\<close> is not code of the repository: it
  is a parameter of the feed. An engine compiles a pattern to a test on strings, or
  rejects it (\<open>None\<close>), which fails the query.
\<close>

type_synonym regex_engine = "string \<Rightarrow> (string \<Rightarrow> bool) option"

text \<open>\<^verbatim>\<open>matchCriteria\<close>, the filter object the route builds.\<close>

datatype reply_filter = ReplyAny | ReplyIs oid | ReplyMissing

record criteria =
  c_user :: "oid option"
  c_content :: "string option"
  c_image :: bool
  c_replyTo :: reply_filter

definition matchesPlain :: "criteria \<Rightarrow> tweet \<Rightarrow> bool" where
  "matchesPlain c t =
     ((case c_user c of None \<Rightarrow> True | Some i \<Rightarrow> t_user t = i)
      \<and> (if c_image c then image t \<noteq> [] else True)
      \<and> (case c_replyTo c of
            ReplyAny \<Rightarrow> True
          | ReplyIs r \<Rightarrow> replyTo t = Some r
          | ReplyMissing \<Rightarrow> replyTo t = None))"

text \<open>\<^verbatim>\<open>Tweet.find(matchCriteria)\<close>: the documents matched, in storage order.\<close>

definition findMatching :: "regex_engine \<Rightarrow> store \<Rightarrow> criteria \<Rightarrow> tweet list result" where
  "findMatching rx st c =
     (case c_content c of
        None \<Rightarrow> Inr (filter (matchesPlain c) (tweets st))
      | Some q \<Rightarrow>
          (case rx q of
             None \<Rightarrow> Inl ServerError
           | Some m \<Rightarrow> Inr (filter (\<lambda>t. matchesPlain c t \<and> m (content t)) (tweets st))))"

text \<open>
  \<^verbatim>\<open>.sort({ createdAt: -1 })\<close>. The store leaves the order of equal timestamps open;
  this sort keeps them in storage order.
\<close>

fun insertDesc :: "tweet \<Rightarrow> tweet list \<Rightarrow> tweet list" where
  "insertDesc t [] = [t]"
| "insertDesc t (x # xs) =
     (if createdAt x \<le> createdAt t then t # x # xs else x # insertDesc t xs)"

fun sortDesc :: "tweet list \<Rightarrow> tweet list" where
  "sortDesc [] = []"
| "sortDesc (t # ts) = insertDesc t (sortDesc ts)"

text \<open>
  \<^verbatim>\<open>.sort(...).skip(skip).limit(n)\<close> on the matched documents. The store refuses a
  negative skip; a limit of 0 is no limit, and a negative limit counts as its absolute
  value.
\<close>

definition sortSkipLimit :: "tweet list \<Rightarrow> int \<Rightarrow> int \<Rightarrow> tweet list result" where
  "sortSkipLimit ms skip lim =
     (if skip < 0 then Inl ServerError
      else
        let rest = drop (nat skip) (sortDesc ms)
        in Inr (if lim = 0 then rest else take (nat \<bar>lim\<bar>) rest))"

section \<open>Feed: populate and annotation\<close>

text \<open>
  A populated reference to a user: \<^verbatim>\<open>_id\<close> and the selected fields. The tweet's own
  author is populated with \<^verbatim>\<open>'name username profileImage'\<close>, the author of the reply
  parent with \<^verbatim>\<open>'username'\<close> only, so that its name is not loaded.
\<close>

record author =
  a_id :: oid
  a_name :: "string option"
  a_username :: "string option"

definition populateUser :: "bool \<Rightarrow> store \<Rightarrow> oid \<Rightarrow> author option" where
  "populateUser withName st i =
     (case findUserById st i of
        None \<Rightarrow> None
      | Some u \<Rightarrow>
          Some \<lparr>a_id = u_id u,
                a_name = (if withName then Some (name u) else None),
                a_username = Some (username u)\<rparr>)"

text \<open>
  The field \<^verbatim>\<open>replyTo\<close> of a document a query returned: undefined, the raw id when the
  query did not populate it, \<^verbatim>\<open>null\<close> when populate found no parent, or the parent with
  its own \<^verbatim>\<open>user\<close> populated (\<open>None\<close> when that user was not found).
\<close>

datatype reply_ref = NoReply | ReplyId oid | ReplyNull | ReplyDoc tweet "author option"

record ptweet =
  doc :: tweet
  p_user :: "author option"
  p_replyTo :: reply_ref

datatype populate_mode = AuthorOnly | AuthorAndParent

definition populate :: "populate_mode \<Rightarrow> store \<Rightarrow> tweet \<Rightarrow> ptweet" where
  "populate mode st t =
     \<lparr>doc = t,
      p_user = populateUser True st (t_user t),
      p_replyTo =
        (case replyTo t of
           None \<Rightarrow> NoReply
         | Some r \<Rightarrow>
             (case mode of
                AuthorOnly \<Rightarrow> ReplyId r
              | AuthorAndParent \<Rightarrow>
                  (case findTweetById st r of
                     None \<Rightarrow> ReplyNull
                   | Some par \<Rightarrow> ReplyDoc par (populateUser False st (t_user par)))))\<rparr>"

record view =
  v_tweet :: ptweet
  isLiked :: bool
  isRetweeted :: bool
  likesCount :: nat
  retweetsCount :: nat
  commentsCount :: nat
  replyToUser :: "author option"

text \<open>
  The body of \<^verbatim>\<open>addUserInteractionInfo\<close> for \<^verbatim>\<open>replyToUser\<close>. Reading
  \<^verbatim>\<open>tweet.replyTo.user._id\<close> throws a TypeError when \<^verbatim>\<open>tweet.replyTo\<close> is truthy and
  its \<^verbatim>\<open>user\<close> is \<^verbatim>\<open>null\<close> or undefined; the route answers it with 500.
\<close>

definition replyToUserOf :: "reply_ref \<Rightarrow> author option result" where
  "replyToUserOf r =
     (case r of
        NoReply \<Rightarrow> Inr None
      | ReplyNull \<Rightarrow> Inr None
      | ReplyId _ \<Rightarrow> Inl ServerError
      | ReplyDoc par None \<Rightarrow> Inl ServerError
      | ReplyDoc par (Some a) \<Rightarrow>
          Inr (Some \<lparr>a_id = a_id a, a_name = a_name a, a_username = a_username a\<rparr>))"

definition annotate :: "store \<Rightarrow> user \<Rightarrow> ptweet \<Rightarrow> view result" where
  "annotate st viewer pt =
     (let isL = u_id viewer \<in> set (t_likes (doc pt));
          isR = u_id viewer \<in> set (t_retweets (doc pt));
          cnt = countReplies st (t_id (doc pt))
      in andThen (replyToUserOf (p_replyTo pt))
           (\<lambda>ru. Inr \<lparr>v_tweet = pt, isLiked = isL, isRetweeted = isR,
                       likesCount = length (t_likes (doc pt)),
                       retweetsCount = length (t_retweets (doc pt)),
                       commentsCount = cnt, replyToUser = ru\<rparr>))"

text \<open>\<^verbatim>\<open>Promise.all(tweets.map(...))\<close>: every view in input order, or the failure.\<close>

fun addUserInteractionInfo :: "store \<Rightarrow> ptweet list \<Rightarrow> user \<Rightarrow> view list result" where
  "addUserInteractionInfo st [] viewer = Inr []"
| "addUserInteractionInfo st (pt # pts) viewer =
     andThen (annotate st viewer pt)
       (\<lambda>v. andThen (addUserInteractionInfo st pts viewer) (\<lambda>vs. Inr (v # vs)))"

section \<open>Feed: the route\<close>

text \<open>\<^verbatim>\<open>const { ..., page = 1, limit = 10 } = req.query; const skip = (page - 1) * limit\<close>.\<close>

definition pageOf :: "feed_query \<Rightarrow> int" where
  "pageOf q = (case q_page q of None \<Rightarrow> 1 | Some n \<Rightarrow> n)"

definition limitOf :: "feed_query \<Rightarrow> int" where
  "limitOf q = (case q_limit q of None \<Rightarrow> 10 | Some n \<Rightarrow> n)"

definition skipOf :: "feed_query \<Rightarrow> int" where
  "skipOf q = (pageOf q - 1) * limitOf q"

text \<open>The filter by username: the id \<^verbatim>\<open>matchCriteria.user\<close> is set to, if any.\<close>

definition resolveUsername :: "store \<Rightarrow> feed_query \<Rightarrow> oid option result" where
  "resolveUsername st q =
     (case given (q_username q) of
        None \<Rightarrow> Inr None
      | Some n \<Rightarrow>
          (case findUserByUsername st n of
             None \<Rightarrow> Inl NotFound
           | Some u \<Rightarrow> Inr (Some (u_id u))))"

text \<open>
  \<^verbatim>\<open>matchCriteria\<close> as it stands when the route reaches \<^verbatim>\<open>Tweet.find(matchCriteria)\<close>:
  the user resolved above, the search pattern, \<^verbatim>\<open>image: { $ne: '' }\<close> for type
  \<^verbatim>\<open>media\<close>, and \<^verbatim>\<open>replyTo\<close> either the given id or, for no type and for type
  \<^verbatim>\<open>tweets\<close>, \<^verbatim>\<open>{ $exists: false }\<close>.
\<close>

definition buildCriteria :: "feed_query \<Rightarrow> oid option \<Rightarrow> criteria" where
  "buildCriteria q cu =
     \<lparr>c_user = cu,
      c_content = given (q_query q),
      c_image = (given (q_type q) = Some ''media''),
      c_replyTo =
        (case q_replyToId q of
           Some r \<Rightarrow> ReplyIs r
         | None \<Rightarrow>
             if given (q_type q) = None \<or> given (q_type q) = Some ''tweets''
             then ReplyMissing else ReplyAny)\<rparr>"

text \<open>The test of the home timeline branch.\<close>

definition isHome :: "feed_query \<Rightarrow> bool" where
  "isHome q =
     (given (q_username q) = None \<and> given (q_query q) = None \<and> q_replyToId q = None
      \<and> (given (q_type q) = None \<or> given (q_type q) = Some ''tweets''))"

definition getTweets :: "regex_engine \<Rightarrow> store \<Rightarrow> user \<Rightarrow> feed_query \<Rightarrow> view list result" where
  "getTweets rx st viewer q =
     andThen (resolveUsername st q)
       (\<lambda>cu.
          case (if given (q_type q) = Some ''likes'' then given (q_username q) else None) of
            Some n \<Rightarrow>
              (case findUserByUsername st n of
                 None \<Rightarrow> Inl NotFound
               | Some u \<Rightarrow>
                   andThen
                     (sortSkipLimit (filter (\<lambda>t. t_id t \<in> set (u_likes u)) (tweets st))
                        (skipOf q) (limitOf q))
                     (\<lambda>ts. addUserInteractionInfo st (map (populate AuthorAndParent st) ts)
                             viewer))
          | None \<Rightarrow>
              if isHome q then
                let followingIds = following viewer @ [u_id viewer]
                in andThen
                     (sortSkipLimit
                        (filter (\<lambda>t. t_user t \<in> set followingIds \<and> replyTo t = None)
                           (tweets st))
                        (skipOf q) (limitOf q))
                     (\<lambda>ts. addUserInteractionInfo st (map (populate AuthorOnly st) ts) viewer)
              else
                andThen (findMatching rx st (buildCriteria q cu))
                  (\<lambda>ms. andThen (sortSkipLimit ms (skipOf q) (limitOf q))
                     (\<lambda>ts. addUserInteractionInfo st (map (populate AuthorAndParent st) ts)
                             viewer)))"

section \<open>Notions the properties are stated with\<close>

text \<open>The documents of a response, without the annotation.\<close>

definition resultDocs :: "view list result \<Rightarrow> tweet list result" where
  "resultDocs r = (case r of Inl e \<Rightarrow> Inl e | Inr vs \<Rightarrow> Inr (map (\<lambda>v. doc (v_tweet v)) vs))"

text \<open>
  The documents a request matches, in storage order, before sort, skip and limit; which
  references its query populates; and the slice a page and a limit select.
\<close>

definition matchingTweets :: "regex_engine \<Rightarrow> store \<Rightarrow> user \<Rightarrow> feed_query \<Rightarrow> tweet list result" where
  "matchingTweets rx st viewer q =
     andThen (resolveUsername st q)
       (\<lambda>cu.
          case (if given (q_type q) = Some ''likes'' then given (q_username q) else None) of
            Some n \<Rightarrow>
              (case findUserByUsername st n of
                 None \<Rightarrow> Inl NotFound
               | Some u \<Rightarrow> Inr (filter (\<lambda>t. t_id t \<in> set (u_likes u)) (tweets st)))
          | None \<Rightarrow>
              if isHome q then
                Inr (filter (\<lambda>t. t_user t \<in> set (following viewer @ [u_id viewer])
                                \<and> replyTo t = None) (tweets st))
              else findMatching rx st (buildCriteria q cu))"

definition modeOf :: "feed_query \<Rightarrow> populate_mode" where
  "modeOf q =
     (if (given (q_type q) = Some ''likes'' \<and> given (q_username q) \<noteq> None) then AuthorAndParent
      else if isHome q then AuthorOnly else AuthorAndParent)"

definition pageSlice :: "int \<Rightarrow> int \<Rightarrow> 'a list \<Rightarrow> 'a list" where
  "pageSlice page limit xs = take (nat limit) (drop (nat ((page - 1) * limit)) xs)"

definition newestFirst :: "tweet list \<Rightarrow> bool" where
  "newestFirst ts = sorted_wrt (\<lambda>a b. createdAt b \<le> createdAt a) ts"

text \<open>
  The home timeline in the words of the specification: the tweets of the viewer and of
  the users the viewer follows that are not replies.
\<close>

definition homeTweets :: "store \<Rightarrow> user \<Rightarrow> tweet list" where
  "homeTweets st viewer =
     filter (\<lambda>t. (t_user t = u_id viewer \<or> t_user t \<in> set (following viewer))
                  \<and> replyTo t = None) (tweets st)"

text \<open>
  The liked tweets in the order of the specification, newest like first: \<^verbatim>\<open>$push\<close>
  appends, so the newest like is the last id of the user's list.
\<close>

definition likedNewestFirst :: "store \<Rightarrow> user \<Rightarrow> tweet list" where
  "likedNewestFirst st u = List.map_filter (findTweetById st) (rev (u_likes u))"

text \<open>
  Containment as a literal substring, letters compared without case (ASCII), in the
  words of the specification.
\<close>

definition lower :: "char \<Rightarrow> char" where
  "lower c =
     (let n = (of_char c :: nat) in if 65 \<le> n \<and> n \<le> 90 then char_of (n + 32) else c)"

fun prefixCI :: "string \<Rightarrow> string \<Rightarrow> bool" where
  "prefixCI [] s = True"
| "prefixCI (p # ps) [] = False"
| "prefixCI (p # ps) (c # cs) = (lower p = lower c \<and> prefixCI ps cs)"

fun containsCI :: "string \<Rightarrow> string \<Rightarrow> bool" where
  "containsCI q [] = prefixCI q []"
| "containsCI q (c # cs) = (prefixCI q (c # cs) \<or> containsCI q cs)"

text \<open>
  An engine for the patterns made of ordinary characters and the dot, which matches any
  character but a line feed; it rejects every pattern with another metacharacter. The
  search is unanchored and ignores case, as \<^verbatim>\<open>$regex\<close> with option \<^verbatim>\<open>i\<close> does.
\<close>

definition metachars :: "char list" where
  "metachars =
     [CHR 0x5C, CHR ''^'', CHR ''$'', CHR ''.'', CHR ''|'', CHR ''?'', CHR ''*'', CHR ''+'',
      CHR ''('', CHR '')'', CHR ''['', CHR '']'', CHR ''{'', CHR ''}'']"

definition noMeta :: "string \<Rightarrow> bool" where
  "noMeta s = list_all (\<lambda>c. c \<notin> set metachars) s"

fun matchHere :: "string \<Rightarrow> string \<Rightarrow> bool" where
  "matchHere [] s = True"
| "matchHere (p # ps) [] = False"
| "matchHere (p # ps) (c # cs) =
     ((if p = CHR ''.'' then c \<noteq> CHR 0x0A else lower p = lower c) \<and> matchHere ps cs)"

fun searchRx :: "string \<Rightarrow> string \<Rightarrow> bool" where
  "searchRx p [] = matchHere p []"
| "searchRx p (c # cs) = (matchHere p (c # cs) \<or> searchRx p cs)"

definition dotRegex :: regex_engine where
  "dotRegex p =
     (if list_all (\<lambda>c. c = CHR ''.'' \<or> c \<notin> set metachars) p then Some (searchRx p) else None)"

text \<open>An engine that takes a pattern without metacharacters as the literal it spells.\<close>

definition literalEngine :: "regex_engine \<Rightarrow> bool" where
  "literalEngine rx = (\<forall>p. noMeta p \<longrightarrow> (\<exists>m. rx p = Some m \<and> (\<forall>s. m s = containsCI p s)))"

section \<open>Example data\<close>

definition mkUser :: "oid \<Rightarrow> string \<Rightarrow> oid list \<Rightarrow> user" where
  "mkUser i n fl =
     \<lparr>u_id = i, name = n, username = n, following = fl, followers = [],
      u_likes = [], u_retweets = []\<rparr>"

definition mkTweet :: "oid \<Rightarrow> oid \<Rightarrow> nat \<Rightarrow> oid option \<Rightarrow> string \<Rightarrow> tweet" where
  "mkTweet i a time r txt =
     \<lparr>t_id = i, content = txt, t_user = a, image = [], t_likes = [], t_retweets = [],
      retweetData = None, replyTo = r, pinned = False, createdAt = time\<rparr>"

definition noParams :: feed_query where
  "noParams =
     \<lparr>q_username = None, q_query = None, q_type = None, q_replyToId = None,
      q_page = None, q_limit = None\<rparr>"

text \<open>
  Alice follows Bob and Carol; Dave is followed by nobody. Dave wrote tweet 10 at time 0,
  Bob tweet 11 at time 1, Carol tweet 12 at time 2 in reply to tweet 10, and Bob tweet 13
  at time 3.
\<close>

definition alice :: user where
  "alice = mkUser 1 ''alice'' [2, 3]"

definition bob :: user where
  "bob = mkUser 2 ''bob'' []"

definition carol :: user where
  "carol = mkUser 3 ''carol'' []"

definition dave :: user where
  "dave = mkUser 4 ''dave'' []"

definition scenarioStore :: store where
  "scenarioStore =
     \<lparr>tweets = [mkTweet 10 4 0 None ''x'', mkTweet 11 2 1 None ''t1'',
                mkTweet 12 3 2 (Some 10) ''t2'', mkTweet 13 2 3 None ''t3''],
      users = [alice, bob, carol, dave],
      writes = 0\<rparr>"

text \<open>The store after Carol liked tweet 11.\<close>

definition likedStore :: store where
  "likedStore = snd (like scenarioStore carol 11)"

text \<open>
  A store whose mirrored lists disagree: Carol's list of likes names tweet 11, which has
  no like, and Bob's followers name Carol, who follows nobody.
\<close>

definition driftStore :: store where
  "driftStore =
     scenarioStore\<lparr>users := [alice, bob\<lparr>followers := [3]\<rparr>, carol\<lparr>u_likes := [11]\<rparr>, dave]\<rparr>"

text \<open>
  Frank, whose id is \<open>ab\<close> in hexadecimal, alone in a store; his id as the path spells
  it in upper case.
\<close>

definition frank :: user where
  "frank = mkUser 171 ''frank'' []"

definition frankStore :: store where
  "frankStore = \<lparr>tweets = [], users = [frank], writes = 0\<rparr>"

definition frankUpper :: string where
  "frankUpper = ''0000000000000000000000AB''"

definition emptyStore :: store where
  "emptyStore = \<lparr>tweets = [], users = [], writes = 0\<rparr>"



text \<open>
  Three tweets of Bob, written at times 2, 3 and 1, which Dave then likes in the order
  21, 22, 23; and the request for the likes of a user.
\<close>

definition likesStore :: store where
  "likesStore =
     \<lparr>tweets = [mkTweet 21 2 2 None ''second'', mkTweet 22 2 3 None ''third'',
                mkTweet 23 2 1 None ''first''],
      users = [alice, bob, carol, dave],
      writes = 0\<rparr>"

definition threeLikes :: store where
  "threeLikes = snd (like (snd (like (snd (like likesStore dave 21)) dave 22)) dave 23)"

definition likesOf :: "string \<Rightarrow> feed_query" where
  "likesOf n = noParams\<lparr>q_type := Some ''likes'', q_username := Some n\<rparr>"

text \<open>Three tweets to search in, and the request for a search.\<close>

definition searchStore :: store where
  "searchStore =
     \<lparr>tweets = [mkTweet 31 2 1 None ''abc'', mkTweet 32 2 2 None ''an A.C unit'',
                mkTweet 33 2 3 None ''xyz''],
      users = [alice, bob, carol, dave],
      writes = 0\<rparr>"

definition search :: "string \<Rightarrow> feed_query" where
  "search s = noParams\<lparr>q_query := Some s\<rparr>"

text \<open>
  Tweet 41 is a reply whose parent exists while the parent's author, user 9, has no
  document in the store; tweet 42 is a reply whose parent, tweet 77, is not in the store.
\<close>

definition orphanStore :: store where
  "orphanStore =
     \<lparr>tweets = [mkTweet 40 9 1 None ''parent'', mkTweet 41 2 2 (Some 40) ''reply'',
                mkTweet 42 2 3 (Some 77) ''dangling''],
      users = [alice, bob, carol, dave],
      writes = 0\<rparr>"

section \<open>Facts about the store\<close>

lemma find_updateFirst_same:
  "(\<And>x. p x \<Longrightarrow> p (f x)) \<Longrightarrow> find p (updateFirst p f xs) = map_option f (find p xs)"
  by (induction xs) auto

lemma find_updateFirst_other:
  "(\<And>x. p x \<Longrightarrow> \<not> q x \<and> \<not> q (f x)) \<Longrightarrow> find q (updateFirst p f xs) = find q xs"
  by (induction xs) auto

lemma find_Some_holds: "find p xs = Some x \<Longrightarrow> p x"
  by (auto simp: find_Some_iff)

lemma findTweetById_id: "findTweetById st i = Some t \<Longrightarrow> t_id t = i"
  by (auto simp: findTweetById_def dest: find_Some_holds)

lemma findUserById_id: "findUserById st i = Some u \<Longrightarrow> u_id u = i"
  by (auto simp: findUserById_def dest: find_Some_holds)

lemma findTweetById_saveTweet:
  "findTweetById (saveTweet st t) (t_id t) = map_option (\<lambda>_. t) (findTweetById st (t_id t))"
  by (simp add: findTweetById_def saveTweet_def find_updateFirst_same)

lemma findTweetById_findByIdAndUpdate [simp]:
  "findTweetById (findByIdAndUpdate st j f) i = findTweetById st i"
  by (simp add: findTweetById_def findByIdAndUpdate_def)

lemma findUserById_saveTweet [simp]:
  "findUserById (saveTweet st t) i = findUserById st i"
  by (simp add: findUserById_def saveTweet_def)

lemma findUserById_update_same:
  "(\<And>u. u_id (f u) = u_id u) \<Longrightarrow>
   findUserById (findByIdAndUpdate st i f) i = map_option f (findUserById st i)"
  by (simp add: findUserById_def findByIdAndUpdate_def find_updateFirst_same)

lemma findUserById_update_other:
  "(\<And>u. u_id (f u) = u_id u) \<Longrightarrow> j \<noteq> i \<Longrightarrow>
   findUserById (findByIdAndUpdate st i f) j = findUserById st j"
  unfolding findUserById_def findByIdAndUpdate_def
  by (simp, rule find_updateFirst_other) auto

lemma writes_saveTweet [simp]: "writes (saveTweet st t) = Suc (writes st)"
  by (simp add: saveTweet_def)

lemma writes_findByIdAndUpdate [simp]: "writes (findByIdAndUpdate st i f) = Suc (writes st)"
  by (simp add: findByIdAndUpdate_def)

lemma tweets_findByIdAndUpdate [simp]: "tweets (findByIdAndUpdate st i f) = tweets st"
  by (simp add: findByIdAndUpdate_def)

lemma users_saveTweet [simp]: "users (saveTweet st t) = users st"
  by (simp add: saveTweet_def)

lemma filter_neq_absent: "x \<notin> set xs \<Longrightarrow> filter (\<lambda>l. l \<noteq> x) xs = xs"
  by (induction xs) auto

lemma find_map_preserved:
  "(\<And>x. p (h x) = p x) \<Longrightarrow> find p (map h xs) = map_option h (find p xs)"
  by (induction xs) auto

lemmas ex_defs = scenarioStore_def alice_def bob_def carol_def dave_def mkUser_def mkTweet_def
  findTweetById_def findUserById_def findUserByUsername_def saveTweet_def findByIdAndUpdate_def
  push_def pull_def

lemma likedStore_eq:
  "likedStore = \<lparr>tweets = [mkTweet 10 4 0 None ''x'', (mkTweet 11 2 1 None ''t1'')\<lparr>t_likes := [3]\<rparr>,
                mkTweet 12 3 2 (Some 10) ''t2'', mkTweet 13 2 3 None ''t3''],
      users = [alice, bob, carol\<lparr>u_likes := [11]\<rparr>, dave],
      writes = 2\<rparr>"
  by (simp add: likedStore_def like_def ex_defs Let_def)

section \<open>Facts about the feed\<close>

lemma set_insertDesc: "set (insertDesc t xs) = insert t (set xs)"
  by (induction xs) auto

lemma set_sortDesc: "set (sortDesc xs) = set xs"
  by (induction xs) (auto simp: set_insertDesc)

lemma length_insertDesc: "length (insertDesc t xs) = Suc (length xs)"
  by (induction xs) auto

lemma length_sortDesc: "length (sortDesc xs) = length xs"
  by (induction xs) (auto simp: length_insertDesc)

lemma newestFirst_insertDesc:
  "newestFirst xs \<Longrightarrow> newestFirst (insertDesc t xs)"
  unfolding newestFirst_def
  by (induction xs) (auto simp: set_insertDesc)

lemma newestFirst_sortDesc: "newestFirst (sortDesc xs)"
proof (induction xs)
  case Nil
  show ?case by (simp add: newestFirst_def)
next
  case (Cons t ts)
  then show ?case by (simp add: newestFirst_insertDesc)
qed

lemma doc_populate: "doc (populate m st t) = t"
  by (simp add: populate_def)

lemma annotate_shape:
  "annotate st viewer pt = Inr v \<Longrightarrow> v_tweet v = pt"
  by (auto simp: annotate_def andThen_def Let_def split: sum.splits)

lemma annotate_error:
  "annotate st viewer pt = Inl e \<Longrightarrow> e = ServerError"
  by (auto simp: annotate_def andThen_def Let_def replyToUserOf_def
      split: sum.splits reply_ref.splits option.splits)

lemma addUserInteractionInfo_shape:
  "addUserInteractionInfo st pts viewer = Inr vs \<Longrightarrow> map v_tweet vs = pts"
proof (induction pts arbitrary: vs)
  case Nil
  then show ?case by simp
next
  case (Cons pt pts)
  then show ?case
    by (auto simp: andThen_def split: sum.splits dest: annotate_shape)
qed

lemma addUserInteractionInfo_error:
  "addUserInteractionInfo st pts viewer = Inl e \<Longrightarrow> e = ServerError"
proof (induction pts)
  case Nil
  then show ?case by simp
next
  case (Cons pt pts)
  then show ?case
    by (auto simp: andThen_def split: sum.splits dest: annotate_error)
qed

lemma resultDocs_annotated:
  "resultDocs (addUserInteractionInfo st (map (populate m st) ts) viewer) = Inr ts
   \<or> addUserInteractionInfo st (map (populate m st) ts) viewer = Inl ServerError"
proof (cases "addUserInteractionInfo st (map (populate m st) ts) viewer")
  case (Inl e)
  then show ?thesis by (auto dest: addUserInteractionInfo_error)
next
  case (Inr vs)
  then have "map v_tweet vs = map (populate m st) ts"
    by (rule addUserInteractionInfo_shape)
  then have "map doc (map v_tweet vs) = map doc (map (populate m st) ts)"
    by simp
  then have "map (\<lambda>v. doc (v_tweet v)) vs = map (\<lambda>t. doc (populate m st t)) ts"
    by (simp add: comp_def)
  with Inr show ?thesis by (simp add: resultDocs_def doc_populate)
qed

lemma annotate_no_reply:
  "replyTo t = None \<Longrightarrow> \<exists>v. annotate st viewer (populate m st t) = Inr v"
  by (simp add: annotate_def populate_def replyToUserOf_def andThen_def Let_def)

lemma addUserInteractionInfo_no_replies:
  "list_all (\<lambda>t. replyTo t = None) ts \<Longrightarrow>
   \<exists>vs. addUserInteractionInfo st (map (populate m st) ts) viewer = Inr vs"
proof (induction ts)
  case Nil
  then show ?case by simp
next
  case (Cons t ts)
  then obtain vs where vs: "addUserInteractionInfo st (map (populate m st) ts) viewer = Inr vs"
    by auto
  from Cons.prems obtain v where "annotate st viewer (populate m st t) = Inr v"
    using annotate_no_reply [of t st viewer m] by auto
  with vs show ?case by (simp add: andThen_def)
qed

lemma resultDocs_no_replies:
  assumes "list_all (\<lambda>t. replyTo t = None) ts"
  shows "resultDocs (addUserInteractionInfo st (map (populate m st) ts) viewer) = Inr ts"
  using addUserInteractionInfo_no_replies [OF assms, of st m viewer]
    resultDocs_annotated [of st m ts viewer]
  by auto

lemma skipOf_nonneg: "0 < pageOf q \<Longrightarrow> 0 < limitOf q \<Longrightarrow> 0 \<le> skipOf q"
  unfolding skipOf_def by (intro mult_nonneg_nonneg) auto

lemma sortSkipLimit_page:
  assumes "0 < pageOf q" and "0 < limitOf q"
  shows "sortSkipLimit ms (skipOf q) (limitOf q)
           = Inr (pageSlice (pageOf q) (limitOf q) (sortDesc ms))"
  using skipOf_nonneg [OF assms] assms(2)
  by (simp add: sortSkipLimit_def pageSlice_def Let_def) (simp add: skipOf_def)

lemma sortSkipLimit_subset: "sortSkipLimit ms sk lim = Inr ts \<Longrightarrow> set ts \<subseteq> set ms"
proof -
  assume h: "sortSkipLimit ms sk lim = Inr ts"
  have a: "set (take n (drop k (sortDesc ms))) \<subseteq> set ms" for n k
    using set_take_subset [of n "drop k (sortDesc ms)"] set_drop_subset [of k "sortDesc ms"]
    by (auto simp: set_sortDesc)
  have b: "set (drop k (sortDesc ms)) \<subseteq> set ms" for k
    using set_drop_subset [of k "sortDesc ms"] by (simp add: set_sortDesc)
  from h have "ts = drop (nat sk) (sortDesc ms)
      \<or> ts = take (nat \<bar>lim\<bar>) (drop (nat sk) (sortDesc ms))"
    by (auto simp: sortSkipLimit_def Let_def split: if_splits)
  then show ?thesis
    using a [of "nat \<bar>lim\<bar>" "nat sk"] b [of "nat sk"] by blast
qed

lemma getTweets_matching:
  "getTweets rx st viewer q =
     andThen (matchingTweets rx st viewer q)
       (\<lambda>ms. andThen (sortSkipLimit ms (skipOf q) (limitOf q))
          (\<lambda>ts. addUserInteractionInfo st (map (populate (modeOf q) st) ts) viewer))"
  by (auto simp: getTweets_def matchingTweets_def modeOf_def andThen_def Let_def
      split: sum.splits option.splits)

lemma pageSlice_beyond: "length xs \<le> nat ((page - 1) * limit) \<Longrightarrow> pageSlice page limit xs = []"
  by (simp add: pageSlice_def)

lemma pageSlice_all: "length xs \<le> nat limit \<Longrightarrow> pageSlice 1 limit xs = xs"
  by (simp add: pageSlice_def)

lemma matchingTweets_home: "isHome q \<Longrightarrow> matchingTweets rx st viewer q = Inr (homeTweets st viewer)"
proof -
  assume h: "isHome q"
  then have u: "given (q_username q) = None"
    by (simp add: isHome_def)
  show ?thesis
    using h u by (simp add: matchingTweets_def resolveUsername_def andThen_def homeTweets_def)
qed

lemma homeTweets_no_replies: "list_all (\<lambda>t. replyTo t = None) (homeTweets st viewer)"
  by (simp add: homeTweets_def list_all_iff)

lemma list_all_sortDesc: "list_all P (sortDesc xs) = list_all P xs"
  by (simp add: list_all_iff set_sortDesc)

lemma list_all_pageSlice: "list_all P xs \<Longrightarrow> list_all P (pageSlice page limit xs)"
  by (auto simp: list_all_iff pageSlice_def dest: in_set_takeD in_set_dropD)

lemma noMeta_no_dot: "noMeta p \<Longrightarrow> CHR ''.'' \<notin> set p"
  by (auto simp: noMeta_def metachars_def list_all_iff)

lemma matchHere_literal: "CHR ''.'' \<notin> set p \<Longrightarrow> matchHere p s = prefixCI p s"
  by (induction p s rule: prefixCI.induct) auto

lemma searchRx_literal: "CHR ''.'' \<notin> set p \<Longrightarrow> searchRx p s = containsCI p s"
  by (induction s) (auto simp: matchHere_literal)

lemma literalEngine_dotRegex: "literalEngine dotRegex"
proof -
  have "dotRegex p = Some (searchRx p)" if "noMeta p" for p
    using that by (auto simp: dotRegex_def noMeta_def list_all_iff)
  then show ?thesis
    by (auto simp: literalEngine_def searchRx_literal noMeta_no_dot)
qed

section \<open>The feed\<close>

text \<open>
  Claim C1, as the code has it. For a request with type \<open>likes\<close> and a username: when no
  user has that name the request fails with NotFound; when user \<open>u\<close> has it, and page
  and limit are positive, the response is the annotation of the page of the tweets whose
  id is in \<open>u\<close>'s likes, sorted by the time the tweet was created, newest first (not by
  the time of the like); and the search query, the reply filter and the regular
  expression engine have no effect on the response.
\<close>

theorem likes_feed:
  assumes ty: "given (q_type q) = Some ''likes''" and un: "given (q_username q) = Some n"
  shows "(findUserByUsername st n = None \<longrightarrow> getTweets rx st viewer q = Inl NotFound)
       \<and> (\<forall>u. findUserByUsername st n = Some u \<and> 0 < pageOf q \<and> 0 < limitOf q \<longrightarrow>
            getTweets rx st viewer q =
              addUserInteractionInfo st
                (map (populate AuthorAndParent st)
                   (take (nat (limitOf q)) (drop (nat ((pageOf q - 1) * limitOf q))
                      (sortDesc (filter (\<lambda>t. t_id t \<in> set (u_likes u)) (tweets st))))))
                viewer
            \<and> (resultDocs (getTweets rx st viewer q) =
                  Inr (take (nat (limitOf q)) (drop (nat ((pageOf q - 1) * limitOf q))
                         (sortDesc (filter (\<lambda>t. t_id t \<in> set (u_likes u)) (tweets st)))))
               \<or> getTweets rx st viewer q = Inl ServerError)
            \<and> newestFirst (sortDesc (filter (\<lambda>t. t_id t \<in> set (u_likes u)) (tweets st))))
       \<and> getTweets rx' st viewer (q\<lparr>q_query := x, q_replyToId := y\<rparr>) = getTweets rx st viewer q"
proof -
  have nf: "findUserByUsername st n = None \<longrightarrow> getTweets rx st viewer q = Inl NotFound"
    using ty un by (simp add: getTweets_def resolveUsername_def andThen_def)
  have ok: "\<forall>u. findUserByUsername st n = Some u \<and> 0 < pageOf q \<and> 0 < limitOf q \<longrightarrow>
            getTweets rx st viewer q =
              addUserInteractionInfo st
                (map (populate AuthorAndParent st)
                   (take (nat (limitOf q)) (drop (nat ((pageOf q - 1) * limitOf q))
                      (sortDesc (filter (\<lambda>t. t_id t \<in> set (u_likes u)) (tweets st))))))
                viewer
            \<and> (resultDocs (getTweets rx st viewer q) =
                  Inr (take (nat (limitOf q)) (drop (nat ((pageOf q - 1) * limitOf q))
                         (sortDesc (filter (\<lambda>t. t_id t \<in> set (u_likes u)) (tweets st)))))
               \<or> getTweets rx st viewer q = Inl ServerError)
            \<and> newestFirst (sortDesc (filter (\<lambda>t. t_id t \<in> set (u_likes u)) (tweets st)))"
  proof (intro allI impI)
    fix u
    assume h: "findUserByUsername st n = Some u \<and> 0 < pageOf q \<and> 0 < limitOf q"
    let ?liked = "filter (\<lambda>t. t_id t \<in> set (u_likes u)) (tweets st)"
    let ?slice = "take (nat (limitOf q)) (drop (nat ((pageOf q - 1) * limitOf q)) (sortDesc ?liked))"
    have ms: "matchingTweets rx st viewer q = Inr ?liked"
      using ty un h by (simp add: matchingTweets_def resolveUsername_def andThen_def)
    have mode: "modeOf q = AuthorAndParent"
      using ty un by (simp add: modeOf_def)
    have eq: "getTweets rx st viewer q =
        addUserInteractionInfo st (map (populate AuthorAndParent st) ?slice) viewer"
      using getTweets_matching [of rx st viewer q] ms mode h
        sortSkipLimit_page [of q ?liked]
      by (simp add: andThen_def pageSlice_def)
    have docs: "resultDocs (getTweets rx st viewer q) = Inr ?slice
        \<or> getTweets rx st viewer q = Inl ServerError"
      using resultDocs_annotated [of st AuthorAndParent ?slice viewer] by (simp add: eq)
    from eq docs newestFirst_sortDesc [of ?liked]
    show "getTweets rx st viewer q =
        addUserInteractionInfo st (map (populate AuthorAndParent st) ?slice) viewer
      \<and> (resultDocs (getTweets rx st viewer q) = Inr ?slice
          \<or> getTweets rx st viewer q = Inl ServerError)
      \<and> newestFirst (sortDesc ?liked)"
      by (intro conjI)
  qed
  have ign: "getTweets rx' st viewer (q\<lparr>q_query := x, q_replyToId := y\<rparr>) = getTweets rx st viewer q"
    using ty un
    by (simp add: getTweets_def resolveUsername_def andThen_def skipOf_def pageOf_def limitOf_def
        split: option.splits)
  from nf ok ign show ?thesis by (intro conjI)
qed

theorem likes_feed_witness:
  "getTweets dotRegex threeLikes alice (likesOf ''erin'') = Inl NotFound
   \<and> getTweets dotRegex threeLikes alice
         ((likesOf ''dave'')\<lparr>q_query := Some ''(('', q_replyToId := Some 21\<rparr>)
       = getTweets dotRegex threeLikes alice (likesOf ''dave'')
   \<and> map_sum id (map t_id) (resultDocs (getTweets dotRegex threeLikes alice (likesOf ''dave'')))
       = Inr [22, 21, 23]"
proof -
  have ty: "given (q_type (likesOf n)) = Some ''likes''"
    and un: "n \<noteq> [] \<Longrightarrow> given (q_username (likesOf n)) = Some n" for n
    by (simp_all add: likesOf_def noParams_def given_def)
  have none: "findUserByUsername threeLikes ''erin'' = None"
    by code_simp
  have a: "getTweets dotRegex threeLikes alice (likesOf ''erin'') = Inl NotFound"
    using likes_feed [OF ty un, of "''erin''" threeLikes dotRegex alice] none by simp
  have b: "getTweets dotRegex threeLikes alice
         ((likesOf ''dave'')\<lparr>q_query := Some ''(('', q_replyToId := Some 21\<rparr>)
       = getTweets dotRegex threeLikes alice (likesOf ''dave'')"
    using likes_feed [OF ty un, of "''dave''" threeLikes dotRegex alice] by simp
  have c: "map_sum id (map t_id)
             (resultDocs (getTweets dotRegex threeLikes alice (likesOf ''dave'')))
       = Inr [22, 21, 23]"
    by code_simp
  from a b c show ?thesis by (intro conjI)
qed

text \<open>
  Claim C1 as stated fails. Dave liked tweets 21, 22 and 23 in that order, so newest like
  first is 23, 22, 21; the feed of his likes is 22, 21, 23, the order of creation.
\<close>

theorem likes_feed_counterexample:
  "map_option u_likes (findUserByUsername threeLikes ''dave'') = Some [21, 22, 23]
   \<and> map_option (\<lambda>u. map t_id (likedNewestFirst threeLikes u))
        (findUserByUsername threeLikes ''dave'') = Some [23, 22, 21]
   \<and> map_sum id (map t_id) (resultDocs (getTweets dotRegex threeLikes alice (likesOf ''dave'')))
       = Inr [22, 21, 23]"
  by code_simp

text \<open>
  Claim C2, as the code has it. For a request of the home timeline with positive page
  and limit, the response holds the documents of the requested page of the home tweets
  sorted newest first, where the home tweets are exactly the stored tweets of the viewer
  or of a user the viewer follows that are not replies; it holds all of them when they
  fit on the first page.
\<close>

theorem home_timeline:
  assumes home: "isHome q" and page: "0 < pageOf q" and limit: "0 < limitOf q"
  shows "resultDocs (getTweets rx st viewer q) =
           Inr (take (nat (limitOf q)) (drop (nat ((pageOf q - 1) * limitOf q))
                  (sortDesc (homeTweets st viewer))))
       \<and> set (sortDesc (homeTweets st viewer)) =
           {t. t \<in> set (tweets st)
               \<and> (t_user t = u_id viewer \<or> t_user t \<in> set (following viewer))
               \<and> replyTo t = None}
       \<and> length (sortDesc (homeTweets st viewer)) = length (homeTweets st viewer)
       \<and> newestFirst (sortDesc (homeTweets st viewer))
       \<and> (pageOf q = 1 \<and> length (homeTweets st viewer) \<le> nat (limitOf q) \<longrightarrow>
            resultDocs (getTweets rx st viewer q) = Inr (sortDesc (homeTweets st viewer)))"
proof -
  let ?all = "sortDesc (homeTweets st viewer)"
  let ?slice = "pageSlice (pageOf q) (limitOf q) ?all"
  have mode: "modeOf q = AuthorOnly"
    using home by (auto simp: modeOf_def isHome_def)
  have "getTweets rx st viewer q =
      addUserInteractionInfo st (map (populate AuthorOnly st) ?slice) viewer"
    using getTweets_matching [of rx st viewer q] matchingTweets_home [OF home, of rx st viewer]
      sortSkipLimit_page [OF page limit, of "homeTweets st viewer"] mode
    by (simp add: andThen_def)
  moreover have "list_all (\<lambda>t. replyTo t = None) ?slice"
    by (intro list_all_pageSlice) (simp add: list_all_sortDesc homeTweets_no_replies)
  ultimately have docs: "resultDocs (getTweets rx st viewer q) = Inr ?slice"
    by (simp add: resultDocs_no_replies)
  have members: "set ?all = {t. t \<in> set (tweets st)
               \<and> (t_user t = u_id viewer \<or> t_user t \<in> set (following viewer))
               \<and> replyTo t = None}"
    by (auto simp: set_sortDesc homeTweets_def)
  have whole: "pageOf q = 1 \<and> length (homeTweets st viewer) \<le> nat (limitOf q) \<longrightarrow>
            resultDocs (getTweets rx st viewer q) = Inr ?all"
    using docs by (auto simp: pageSlice_all length_sortDesc)
  from docs members whole show ?thesis
    by (simp add: pageSlice_def length_sortDesc newestFirst_sortDesc)
qed

text \<open>
  The scenario of claim C2: Alice follows Bob and Carol, Bob posts tweet 11 at time 1, Carol
  replies with tweet 12 at time 2, Bob posts tweet 13 at time 3. Her home timeline with
  the default page and limit is tweet 13, then tweet 11.
\<close>

theorem home_timeline_witness:
  "resultDocs (getTweets dotRegex scenarioStore alice noParams)
     = Inr [mkTweet 13 2 3 None ''t3'', mkTweet 11 2 1 None ''t1'']"
proof -
  have h: "isHome noParams" and p: "0 < pageOf noParams" and l: "0 < limitOf noParams"
    by (simp_all add: isHome_def noParams_def given_def pageOf_def limitOf_def)
  have "sortDesc (homeTweets scenarioStore alice)
          = [mkTweet 13 2 3 None ''t3'', mkTweet 11 2 1 None ''t1'']"
    by (simp add: homeTweets_def scenarioStore_def alice_def mkUser_def mkTweet_def)
  with home_timeline [OF h p l, of dotRegex scenarioStore alice] show ?thesis
    by (simp add: pageOf_def limitOf_def noParams_def)
qed

text \<open>
  Claim C2 as stated fails: with limit 1 the response holds tweet 13 alone, while tweets
  11 and 13 are the home tweets.
\<close>

theorem home_timeline_counterexample:
  "resultDocs (getTweets dotRegex scenarioStore alice (noParams\<lparr>q_limit := Some 1\<rparr>))
     = Inr [mkTweet 13 2 3 None ''t3'']
   \<and> homeTweets scenarioStore alice = [mkTweet 11 2 1 None ''t1'', mkTweet 13 2 3 None ''t3'']"
  by code_simp

text \<open>
  Claim C7, as the code has it. The route hands the query to the store as a regular
  expression. With an engine that takes a pattern without metacharacters as the literal
  it spells, a search for such a query, outside the likes branch, matches exactly the
  tweets that pass the other filters and whose content contains the query as a literal
  substring, whatever the case of the letters; every tweet of the response contains it.
\<close>

theorem search_literal:
  assumes eng: "literalEngine rx" and qs: "given (q_query q) = Some s" and lit: "noMeta s"
    and nl: "\<not> (given (q_type q) = Some ''likes'' \<and> given (q_username q) \<noteq> None)"
  shows "matchingTweets rx st viewer q =
           andThen (resolveUsername st q)
             (\<lambda>cu. Inr (filter (\<lambda>t. matchesPlain (buildCriteria q cu) t \<and> containsCI s (content t))
                          (tweets st)))
       \<and> getTweets rx st viewer q =
           andThen (resolveUsername st q)
             (\<lambda>cu. andThen
                (sortSkipLimit
                   (filter (\<lambda>t. matchesPlain (buildCriteria q cu) t \<and> containsCI s (content t))
                      (tweets st))
                   (skipOf q) (limitOf q))
                (\<lambda>ts. addUserInteractionInfo st (map (populate AuthorAndParent st) ts) viewer))
       \<and> (\<forall>vs. getTweets rx st viewer q = Inr vs \<longrightarrow>
             list_all (\<lambda>v. containsCI s (content (doc (v_tweet v)))) vs)"
proof -
  from eng lit obtain m where m: "rx s = Some m" and ms: "\<And>x. m x = containsCI s x"
    by (auto simp: literalEngine_def)
  have home: "\<not> isHome q"
    using qs by (simp add: isHome_def)
  have fm: "findMatching rx st (buildCriteria q cu) =
      Inr (filter (\<lambda>t. matchesPlain (buildCriteria q cu) t \<and> containsCI s (content t)) (tweets st))"
    for cu
    using qs m ms by (simp add: findMatching_def buildCriteria_def)
  have branch: "(if given (q_type q) = Some ''likes'' then given (q_username q) else None) = None"
    using nl by auto
  have mt: "matchingTweets rx st viewer q =
           andThen (resolveUsername st q)
             (\<lambda>cu. Inr (filter (\<lambda>t. matchesPlain (buildCriteria q cu) t \<and> containsCI s (content t))
                          (tweets st)))"
    unfolding matchingTweets_def branch using home by (simp add: fm)
  have mode: "modeOf q = AuthorAndParent"
    using home nl by (auto simp: modeOf_def)
  have gt: "getTweets rx st viewer q =
           andThen (resolveUsername st q)
             (\<lambda>cu. andThen
                (sortSkipLimit
                   (filter (\<lambda>t. matchesPlain (buildCriteria q cu) t \<and> containsCI s (content t))
                      (tweets st))
                   (skipOf q) (limitOf q))
                (\<lambda>ts. addUserInteractionInfo st (map (populate AuthorAndParent st) ts) viewer))"
    unfolding getTweets_def branch using home by (simp add: fm andThen_def)
  have res: "\<forall>vs. getTweets rx st viewer q = Inr vs \<longrightarrow>
             list_all (\<lambda>v. containsCI s (content (doc (v_tweet v)))) vs"
  proof (intro allI impI)
    fix vs
    assume r: "getTweets rx st viewer q = Inr vs"
    from r gt obtain cu ts where
      ts: "sortSkipLimit
             (filter (\<lambda>t. matchesPlain (buildCriteria q cu) t \<and> containsCI s (content t))
                (tweets st)) (skipOf q) (limitOf q) = Inr ts"
      and an: "addUserInteractionInfo st (map (populate AuthorAndParent st) ts) viewer = Inr vs"
      by (auto simp: andThen_def split: sum.splits)
    from an have "map v_tweet vs = map (populate AuthorAndParent st) ts"
      by (rule addUserInteractionInfo_shape)
    then have "map doc (map v_tweet vs) = map doc (map (populate AuthorAndParent st) ts)"
      by simp
    then have docs: "map (\<lambda>v. doc (v_tweet v)) vs = ts"
      by (simp add: comp_def doc_populate)
    from sortSkipLimit_subset [OF ts] have "list_all (\<lambda>t. containsCI s (content t)) ts"
      by (auto simp: list_all_iff)
    with docs have "list_all (\<lambda>t. containsCI s (content t)) (map (\<lambda>v. doc (v_tweet v)) vs)"
      by simp
    then show "list_all (\<lambda>v. containsCI s (content (doc (v_tweet v)))) vs"
      by (simp add: list_all_iff)
  qed
  from mt gt res show ?thesis by (intro conjI)
qed

theorem search_literal_witness:
  "matchingTweets dotRegex searchStore alice (search ''AB'') = Inr [mkTweet 31 2 1 None ''abc'']
   \<and> map_sum id (map t_id) (resultDocs (getTweets dotRegex searchStore alice (search ''AB'')))
       = Inr [31]"
proof -
  have qs: "given (q_query (search ''AB'')) = Some ''AB''"
    and nl: "\<not> (given (q_type (search ''AB'')) = Some ''likes''
                \<and> given (q_username (search ''AB'')) \<noteq> None)"
    by (simp_all add: search_def noParams_def given_def)
  have lit: "noMeta ''AB''"
    by (simp add: noMeta_def metachars_def)
  have "matchingTweets dotRegex searchStore alice (search ''AB'') =
           andThen (resolveUsername searchStore (search ''AB''))
             (\<lambda>cu. Inr (filter (\<lambda>t. matchesPlain (buildCriteria (search ''AB'') cu) t
                                     \<and> containsCI ''AB'' (content t))
                          (tweets searchStore)))"
    using search_literal [OF literalEngine_dotRegex qs lit nl, of searchStore alice] by simp
  also have "\<dots> = Inr [mkTweet 31 2 1 None ''abc'']"
    by code_simp
  finally have a: "matchingTweets dotRegex searchStore alice (search ''AB'')
      = Inr [mkTweet 31 2 1 None ''abc'']" .
  have b: "map_sum id (map t_id)
             (resultDocs (getTweets dotRegex searchStore alice (search ''AB''))) = Inr [31]"
    by code_simp
  from a b show ?thesis by (rule conjI)
qed

text \<open>
  Claim C7 as stated fails for a query with a metacharacter: the search for \<open>a.c\<close>
  returns the tweet \<open>abc\<close>, which does not contain \<open>a.c\<close>.
\<close>

theorem search_literal_counterexample:
  "map_sum id (map (\<lambda>t. (t_id t, content t)))
      (resultDocs (getTweets dotRegex searchStore alice (search ''a.c'')))
     = Inr [(32, ''an A.C unit''), (31, ''abc'')]
   \<and> \<not> containsCI ''a.c'' ''abc''"
  by code_simp



text \<open>
  Claim C9 at a reply whose parent was preloaded while the parent's author was not: the
  annotation does not return \<^verbatim>\<open>replyToUser = null\<close>, it fails, and so does the request
  for the replies to the parent. For a reply whose parent itself was not found, the
  annotation does return \<^verbatim>\<open>null\<close>.
\<close>

theorem reply_author_missing:
  "findUserById orphanStore 9 = None
   \<and> populate AuthorAndParent orphanStore (mkTweet 41 2 2 (Some 40) ''reply'')
       = \<lparr>doc = mkTweet 41 2 2 (Some 40) ''reply'',
          p_user = Some \<lparr>a_id = 2, a_name = Some ''bob'', a_username = Some ''bob''\<rparr>,
          p_replyTo = ReplyDoc (mkTweet 40 9 1 None ''parent'') None\<rparr>
   \<and> addUserInteractionInfo orphanStore
        [populate AuthorAndParent orphanStore (mkTweet 41 2 2 (Some 40) ''reply'')] alice
       = Inl ServerError
   \<and> getTweets dotRegex orphanStore alice (noParams\<lparr>q_replyToId := Some 40\<rparr>) = Inl ServerError
   \<and> map_sum id (map replyToUser)
        (addUserInteractionInfo orphanStore
           [populate AuthorAndParent orphanStore (mkTweet 42 2 3 (Some 77) ''dangling'')] alice)
       = Inr [None]"
  by code_simp

text \<open>
  The value of \<^verbatim>\<open>replyToUser\<close> by the state of the populated reference: \<^verbatim>\<open>null\<close> for a
  tweet that is no reply and for a parent that was not found; the id, name and username
  of the preloaded author of the parent, as far as they were loaded; a failure when the
  reference was not populated or the parent has no preloaded author.
\<close>

theorem replyToUser_cases:
  "(case p_replyTo pt of
      NoReply \<Rightarrow> map_sum id replyToUser (annotate st viewer pt) = Inr None
    | ReplyNull \<Rightarrow> map_sum id replyToUser (annotate st viewer pt) = Inr None
    | ReplyId r \<Rightarrow> annotate st viewer pt = Inl ServerError
    | ReplyDoc par None \<Rightarrow> annotate st viewer pt = Inl ServerError
    | ReplyDoc par (Some a) \<Rightarrow>
        map_sum id replyToUser (annotate st viewer pt)
          = Inr (Some \<lparr>a_id = a_id a, a_name = a_name a, a_username = a_username a\<rparr>))"
  by (simp add: annotate_def replyToUserOf_def andThen_def Let_def
      split: reply_ref.splits option.splits)

theorem replyToUser_cases_witness:
  "map_sum id replyToUser
     (annotate scenarioStore alice
        (populate AuthorAndParent scenarioStore (mkTweet 12 3 2 (Some 10) ''t2'')))
     = Inr (Some \<lparr>a_id = 4, a_name = None, a_username = Some ''dave''\<rparr>)"
proof -
  have p: "p_replyTo (populate AuthorAndParent scenarioStore (mkTweet 12 3 2 (Some 10) ''t2''))
      = ReplyDoc (mkTweet 10 4 0 None ''x'')
          (Some \<lparr>a_id = 4, a_name = None, a_username = Some ''dave''\<rparr>)"
    by code_simp
  from replyToUser_cases
    [where pt = "populate AuthorAndParent scenarioStore (mkTweet 12 3 2 (Some 10) ''t2'')"
       and st = scenarioStore and viewer = alice]
  show ?thesis by (simp add: p)
qed

section \<open>The social actions\<close>

text \<open>
  Claim C3. For a tweet that exists, liking it is refused with Conflict exactly when the
  viewer's id is in the tweet's likes, and unliking it exactly when the id is not there;
  the same holds for retweet and unretweet on the tweet's retweets. A request refused
  with Conflict leaves the store as it was.
\<close>

theorem conflict_guards:
  assumes "findTweetById st i = Some t"
  shows "(fst (like st u i) = Inl Conflict \<longleftrightarrow> u_id u \<in> set (t_likes t))
       \<and> (fst (unlike st u i) = Inl Conflict \<longleftrightarrow> u_id u \<notin> set (t_likes t))
       \<and> (fst (retweet st u i) = Inl Conflict \<longleftrightarrow> u_id u \<in> set (t_retweets t))
       \<and> (fst (unretweet st u i) = Inl Conflict \<longleftrightarrow> u_id u \<notin> set (t_retweets t))
       \<and> (fst (like st u i) = Inl Conflict \<longrightarrow> snd (like st u i) = st)
       \<and> (fst (unlike st u i) = Inl Conflict \<longrightarrow> snd (unlike st u i) = st)
       \<and> (fst (retweet st u i) = Inl Conflict \<longrightarrow> snd (retweet st u i) = st)
       \<and> (fst (unretweet st u i) = Inl Conflict \<longrightarrow> snd (unretweet st u i) = st)"
  using assms by (simp add: like_def unlike_def retweet_def unretweet_def Let_def)

theorem conflict_guards_witness:
  "fst (like likedStore carol 11) = Inl Conflict \<and> snd (like likedStore carol 11) = likedStore
   \<and> fst (unlike likedStore dave 11) = Inl Conflict \<and> snd (unlike likedStore dave 11) = likedStore
   \<and> fst (unlike likedStore carol 11) \<noteq> Inl Conflict
   \<and> fst (retweet likedStore carol 11) \<noteq> Inl Conflict
   \<and> fst (unretweet likedStore carol 11) = Inl Conflict"
proof -
  have h: "findTweetById likedStore 11 = Some ((mkTweet 11 2 1 None ''t1'')\<lparr>t_likes := [3]\<rparr>)"
    by (simp add: likedStore_eq findTweetById_def mkTweet_def)
  from conflict_guards [OF h, of carol] conflict_guards [OF h, of dave]
  show ?thesis by (simp add: carol_def dave_def mkUser_def mkTweet_def)
qed

text \<open>
  Claim C4. When the viewer is not among the likes of a tweet, like succeeds, unlike after
  it succeeds, and the tweet is then the document it was before: its likes are restored
  exactly.
\<close>

theorem like_unlike_roundtrip:
  assumes "findTweetById st i = Some t" and "u_id u \<notin> set (t_likes t)" and "u_id u' = u_id u"
  shows "\<exists>st1 st2. like st u i = (Inr ''Tweet liked'', st1)
           \<and> unlike st1 u' i = (Inr ''Tweet unliked'', st2)
           \<and> findTweetById st2 i = Some t"
proof -
  have ti: "t_id t = i" using assms(1) by (rule findTweetById_id)
  define t1 where "t1 = t\<lparr>t_likes := u_id u # t_likes t\<rparr>"
  define st1 where "st1 = findByIdAndUpdate (saveTweet st t1) (u_id u)
                        (\<lambda>x. x\<lparr>u_likes := push (t_id t) (u_likes x)\<rparr>)"
  have l: "like st u i = (Inr ''Tweet liked'', st1)"
    using assms by (simp add: like_def Let_def st1_def t1_def)
  have f1: "findTweetById st1 i = Some t1"
    using findTweetById_saveTweet [of st t1] assms(1) ti by (simp add: st1_def t1_def)
  have restored: "t1\<lparr>t_likes := filter (\<lambda>l. l \<noteq> u_id u) (t_likes t1)\<rparr> = t"
    using assms(2) by (simp add: t1_def filter_neq_absent)
  define st2 where "st2 = findByIdAndUpdate (saveTweet st1 t) (u_id u)
                        (\<lambda>x. x\<lparr>u_likes := pull (t_id t1) (u_likes x)\<rparr>)"
  have ul: "unlike st1 u' i = (Inr ''Tweet unliked'', st2)"
    using f1 assms(3) restored by (simp add: unlike_def Let_def st2_def) (simp add: t1_def)
  have "findTweetById st2 i = Some t"
    using findTweetById_saveTweet [of st1 t] f1 ti by (simp add: st2_def)
  with l ul show ?thesis by blast
qed

theorem like_unlike_roundtrip_witness:
  "\<exists>st1 st2. like scenarioStore carol 11 = (Inr ''Tweet liked'', st1)
      \<and> unlike st1 carol 11 = (Inr ''Tweet unliked'', st2)
      \<and> findTweetById st2 11 = Some (mkTweet 11 2 1 None ''t1'')"
proof -
  have h: "findTweetById scenarioStore 11 = Some (mkTweet 11 2 1 None ''t1'')"
    by (simp add: ex_defs)
  have a: "u_id carol \<notin> set (t_likes (mkTweet 11 2 1 None ''t1''))"
    by (simp add: mkTweet_def)
  from like_unlike_roundtrip [OF h a refl] show ?thesis .
qed

text \<open>
  Claim C5. A follow that succeeds, by a viewer who is a stored user, names its target by
  a string that casts to an id; it issues exactly two writes, none of them to a tweet;
  afterwards the target's id is the last entry of the viewer's following list and the
  viewer's id the last entry of the target's followers.
\<close>

theorem follow_two_writes:
  assumes ok: "follow a st viewer p = (Inr msg, st')"
    and me: "findUserById st (u_id viewer) = Some me"
  shows "\<exists>i. castId p = Some i
       \<and> writes st' = writes st + 2 \<and> tweets st' = tweets st
       \<and> (\<exists>me' tgt tgt'. findUserById st i = Some tgt
             \<and> findUserById st' (u_id viewer) = Some me'
             \<and> following me' = following me @ [i] \<and> i \<in> set (following me')
             \<and> findUserById st' i = Some tgt'
             \<and> followers tgt' = followers tgt @ [u_id viewer]
             \<and> u_id viewer \<in> set (followers tgt'))"
proof -
  from ok obtain i where i: "castId p = Some i"
    by (auto simp: follow_def split: if_splits option.splits)
  let ?f1 = "\<lambda>u. u\<lparr>following := push i (following u)\<rparr>"
  let ?f2 = "\<lambda>u. u\<lparr>followers := push (u_id viewer) (followers u)\<rparr>"
  let ?st1 = "findByIdAndUpdate st (u_id viewer) ?f1"
  from ok i obtain tgt where tgt: "findUserById st i = Some tgt"
    by (auto simp: follow_def split: if_splits option.splits)
  from ok i tgt have st': "st' = findByIdAndUpdate ?st1 i ?f2"
    by (auto simp: follow_def Let_def split: if_splits)
  have a: "findUserById ?st1 (u_id viewer) = Some (?f1 me)"
    using findUserById_update_same [of ?f1 st "u_id viewer"] me by simp
  have w: "writes st' = writes st + 2 \<and> tweets st' = tweets st"
    by (simp add: st')
  have users': "\<exists>me' tgt'. findUserById st' (u_id viewer) = Some me'
             \<and> following me' = following me @ [i]
             \<and> findUserById st' i = Some tgt'
             \<and> followers tgt' = followers tgt @ [u_id viewer]"
  proof (cases "i = u_id viewer")
    case True
    with tgt me have same: "tgt = me" by simp
    have "findUserById st' i = Some (?f2 (?f1 me))"
      using findUserById_update_same [of ?f2 ?st1 i] a True by (simp add: st')
    with True same show ?thesis by (simp add: push_def)
  next
    case False
    have b: "findUserById st' (u_id viewer) = Some (?f1 me)"
      using findUserById_update_other [of ?f2 "u_id viewer" i ?st1] False a by (simp add: st')
    have c: "findUserById ?st1 i = Some tgt"
      using findUserById_update_other [of ?f1 i "u_id viewer" st] False tgt by simp
    have d: "findUserById st' i = Some (?f2 tgt)"
      using findUserById_update_same [of ?f2 ?st1 i] c by (simp add: st')
    from b d show ?thesis by (simp add: push_def)
  qed
  from i w tgt users' show ?thesis by auto
qed

theorem follow_two_writes_witness:
  "writes (snd (follow False scenarioStore carol (idString 2))) = 2
   \<and> (\<exists>me' tgt'. findUserById (snd (follow False scenarioStore carol (idString 2))) 3 = Some me'
         \<and> 2 \<in> set (following me')
         \<and> findUserById (snd (follow False scenarioStore carol (idString 2))) 2 = Some tgt'
         \<and> 3 \<in> set (followers tgt'))"
proof -
  have "fst (follow False scenarioStore carol (idString 2)) = Inr ''User followed successfully''"
    by code_simp
  then have ok: "follow False scenarioStore carol (idString 2)
              = (Inr ''User followed successfully'',
                 snd (follow False scenarioStore carol (idString 2)))"
    by (metis prod.collapse)
  have me: "findUserById scenarioStore (u_id carol) = Some carol"
    by (simp add: ex_defs)
  have w: "writes scenarioStore = 0" and c: "u_id carol = 3"
    by (simp_all add: ex_defs)
  have i: "castId (idString 2) = Some 2"
    by code_simp
  from follow_two_writes [OF ok me] w c i show ?thesis by auto
qed

text \<open>
  Claim C6 at the viewer's own id spelt with upper-case letters. Frank's id is
  \<open>0000000000000000000000ab\<close>; the path \<open>0000000000000000000000AB\<close> is another string
  and casts to the same id. Follow is not refused: it succeeds and Frank follows
  himself; unfollow is refused with Conflict, not with InvalidOperation. The lower-case
  spelling is refused with InvalidOperation.
\<close>

theorem self_follow_other_spelling:
  "idString (u_id frank) = ''0000000000000000000000ab''
   \<and> frankUpper \<noteq> idString (u_id frank)
   \<and> castId frankUpper = Some (u_id frank)
   \<and> fst (follow True frankStore frank frankUpper) = Inr ''User followed successfully''
   \<and> fst (follow False frankStore frank frankUpper) = Inr ''User followed successfully''
   \<and> map_option following (findUserById (snd (follow False frankStore frank frankUpper)) 171)
       = Some [171]
   \<and> map_option followers (findUserById (snd (follow False frankStore frank frankUpper)) 171)
       = Some [171]
   \<and> fst (unfollow True frankStore frank frankUpper) = Inl Conflict
   \<and> fst (unfollow False frankStore frank frankUpper) = Inl Conflict
   \<and> fst (follow False frankStore frank (idString (u_id frank))) = Inl InvalidOperation"
  by code_simp

text \<open>
  The guard as the routes have it: a path that is the viewer's id in lower case is
  refused with InvalidOperation in every store, before the target is looked up, and the
  store is left as it was.
\<close>

theorem self_follow_rejected:
  "follow a st u (idString (u_id u)) = (Inl InvalidOperation, st)
   \<and> unfollow a st u (idString (u_id u)) = (Inl InvalidOperation, st)"
  by (simp add: follow_def unfollow_def)

theorem self_follow_rejected_witness:
  "findUserById emptyStore (u_id dave) = None
   \<and> follow False emptyStore dave (idString (u_id dave)) = (Inl InvalidOperation, emptyStore)
   \<and> unfollow False emptyStore dave (idString (u_id dave)) = (Inl InvalidOperation, emptyStore)"
  using self_follow_rejected [of False emptyStore dave]
  by (simp add: emptyStore_def findUserById_def)

lemma follow_appends_follower:
  assumes p: "p \<noteq> idString (u_id v)" and j: "castId p = Some j"
    and tgt: "findUserById st j = Some tgt"
    and free: "\<not> includesParam a (following v) p"
  shows "fst (follow a st v p) = Inr ''User followed successfully''
       \<and> (\<exists>tgt'. findUserById (snd (follow a st v p)) j = Some tgt'
             \<and> followers tgt' = followers tgt @ [u_id v])"
proof -
  let ?f1 = "\<lambda>u. u\<lparr>following := push j (following u)\<rparr>"
  let ?f2 = "\<lambda>u. u\<lparr>followers := push (u_id v) (followers u)\<rparr>"
  let ?st1 = "findByIdAndUpdate st (u_id v) ?f1"
  from assms have l: "follow a st v p
      = (Inr ''User followed successfully'', findByIdAndUpdate ?st1 j ?f2)"
    by (simp add: follow_def Let_def)
  have "\<exists>x. findUserById ?st1 j = Some x \<and> followers x = followers tgt"
  proof (cases "j = u_id v")
    case True
    then show ?thesis
      using findUserById_update_same [of ?f1 st j] tgt by simp
  next
    case False
    then show ?thesis
      using findUserById_update_other [of ?f1 j "u_id v" st] tgt by simp
  qed
  then obtain x where x: "findUserById ?st1 j = Some x" and fx: "followers x = followers tgt"
    by blast
  have "findUserById (findByIdAndUpdate ?st1 j ?f2) j = Some (?f2 x)"
    using findUserById_update_same [of ?f2 ?st1 j] x by simp
  with l fx show ?thesis by (simp add: push_def)
qed

text \<open>
  Claim C10. The guards read one side only. The response of like does not depend on the
  users collection, and the response of follow does not depend on any list of followers.
  So when the viewer's list of likes already names a tweet the viewer is not a liker of,
  like succeeds and appends the tweet's id a second time. For a path that is not the
  viewer's own id string and casts to the id of a stored target, follow is refused with
  Conflict exactly when the viewer's following list names the target (by the lower-case
  spelling, or by any spelling if the array method accepts any), so that it succeeds
  and appends the viewer a second time to followers that already name the viewer.
\<close>

theorem guards_one_sided:
  "fst (like (st\<lparr>users := us\<rparr>) v i) = fst (like st v i)
   \<and> fst (follow a (st\<lparr>users := map (\<lambda>u. u\<lparr>followers := g u\<rparr>) (users st)\<rparr>) v p)
       = fst (follow a st v p)
   \<and> (findTweetById st i = Some t \<and> u_id v \<notin> set (t_likes t)
        \<and> findUserById st (u_id v) = Some me \<and> i \<in> set (u_likes me)
      \<longrightarrow> fst (like st v i) = Inr ''Tweet liked''
          \<and> (\<exists>me'. findUserById (snd (like st v i)) (u_id v) = Some me'
                \<and> u_likes me' = u_likes me @ [i] \<and> \<not> distinct (u_likes me')))
   \<and> (p \<noteq> idString (u_id v) \<and> castId p = Some j \<and> findUserById st j = Some tgt
      \<longrightarrow> (fst (follow a st v p) = Inl Conflict
            \<longleftrightarrow> j \<in> set (following v) \<and> (a \<or> p = idString j)))
   \<and> (p \<noteq> idString (u_id v) \<and> castId p = Some j \<and> findUserById st j = Some tgt
        \<and> j \<notin> set (following v) \<and> u_id v \<in> set (followers tgt)
      \<longrightarrow> fst (follow a st v p) = Inr ''User followed successfully''
          \<and> (\<exists>tgt'. findUserById (snd (follow a st v p)) j = Some tgt'
                \<and> followers tgt' = followers tgt @ [u_id v] \<and> \<not> distinct (followers tgt')))"
proof -
  have c1: "fst (like (st\<lparr>users := us\<rparr>) v i) = fst (like st v i)"
    by (simp add: like_def findTweetById_def Let_def split: option.splits)
  let ?st = "st\<lparr>users := map (\<lambda>u. u\<lparr>followers := g u\<rparr>) (users st)\<rparr>"
  have "findUserById ?st k = map_option (\<lambda>u. u\<lparr>followers := g u\<rparr>) (findUserById st k)" for k
    by (simp add: findUserById_def find_map_preserved)
  then have c2: "fst (follow a ?st v p) = fst (follow a st v p)"
    by (simp add: follow_def Let_def split: option.splits)
  have c3: "findTweetById st i = Some t \<and> u_id v \<notin> set (t_likes t)
        \<and> findUserById st (u_id v) = Some me \<and> i \<in> set (u_likes me)
      \<longrightarrow> fst (like st v i) = Inr ''Tweet liked''
          \<and> (\<exists>me'. findUserById (snd (like st v i)) (u_id v) = Some me'
                \<and> u_likes me' = u_likes me @ [i] \<and> \<not> distinct (u_likes me'))"
  proof
    assume h: "findTweetById st i = Some t \<and> u_id v \<notin> set (t_likes t)
        \<and> findUserById st (u_id v) = Some me \<and> i \<in> set (u_likes me)"
    then have ti: "t_id t = i" by (auto dest: findTweetById_id)
    let ?f = "\<lambda>u. u\<lparr>u_likes := push (t_id t) (u_likes u)\<rparr>"
    let ?st1 = "saveTweet st (t\<lparr>t_likes := u_id v # t_likes t\<rparr>)"
    from h have l: "like st v i = (Inr ''Tweet liked'', findByIdAndUpdate ?st1 (u_id v) ?f)"
      by (simp add: like_def Let_def)
    have "findUserById (findByIdAndUpdate ?st1 (u_id v) ?f) (u_id v) = Some (?f me)"
      using findUserById_update_same [of ?f ?st1 "u_id v"] h by simp
    with l h ti show "fst (like st v i) = Inr ''Tweet liked''
          \<and> (\<exists>me'. findUserById (snd (like st v i)) (u_id v) = Some me'
                \<and> u_likes me' = u_likes me @ [i] \<and> \<not> distinct (u_likes me'))"
      by (simp add: push_def)
  qed
  have c4: "p \<noteq> idString (u_id v) \<and> castId p = Some j \<and> findUserById st j = Some tgt
      \<longrightarrow> (fst (follow a st v p) = Inl Conflict
            \<longleftrightarrow> j \<in> set (following v) \<and> (a \<or> p = idString j))"
    by (simp add: follow_def includesParam_def Let_def)
  have c5: "p \<noteq> idString (u_id v) \<and> castId p = Some j \<and> findUserById st j = Some tgt
        \<and> j \<notin> set (following v) \<and> u_id v \<in> set (followers tgt)
      \<longrightarrow> fst (follow a st v p) = Inr ''User followed successfully''
          \<and> (\<exists>tgt'. findUserById (snd (follow a st v p)) j = Some tgt'
                \<and> followers tgt' = followers tgt @ [u_id v] \<and> \<not> distinct (followers tgt'))"
  proof
    assume h: "p \<noteq> idString (u_id v) \<and> castId p = Some j \<and> findUserById st j = Some tgt
        \<and> j \<notin> set (following v) \<and> u_id v \<in> set (followers tgt)"
    then have free: "\<not> includesParam a (following v) p"
      by (simp add: includesParam_def)
    from h free follow_appends_follower [of p v j st tgt a]
    obtain tgt' where "fst (follow a st v p) = Inr ''User followed successfully''"
      and "findUserById (snd (follow a st v p)) j = Some tgt'"
      and "followers tgt' = followers tgt @ [u_id v]"
      by blast
    with h show "fst (follow a st v p) = Inr ''User followed successfully''
          \<and> (\<exists>tgt'. findUserById (snd (follow a st v p)) j = Some tgt'
                \<and> followers tgt' = followers tgt @ [u_id v] \<and> \<not> distinct (followers tgt'))"
      by simp
  qed
  show ?thesis by (intro conjI c1 c2 c3 c4 c5)
qed

theorem guards_one_sided_witness:
  "fst (like driftStore carol 11) = Inr ''Tweet liked''
   \<and> (\<exists>me'. findUserById (snd (like driftStore carol 11)) 3 = Some me' \<and> u_likes me' = [11, 11])
   \<and> fst (follow False driftStore carol (idString 2)) = Inr ''User followed successfully''
   \<and> (\<exists>tgt'. findUserById (snd (follow False driftStore carol (idString 2))) 2 = Some tgt'
         \<and> followers tgt' = [3, 3])"
proof -
  have t: "findTweetById driftStore 11 = Some (mkTweet 11 2 1 None ''t1'')"
    and m: "findUserById driftStore (u_id carol) = Some (carol\<lparr>u_likes := [11]\<rparr>)"
    and b: "findUserById driftStore 2 = Some (bob\<lparr>followers := [3]\<rparr>)"
    by (simp_all add: driftStore_def ex_defs)
  have c: "u_id carol = 3" "following carol = []" "u_likes carol = []" "followers bob = []"
    by (simp_all add: ex_defs)
  have s: "idString 2 \<noteq> idString (u_id carol)" "castId (idString 2) = Some 2"
    by code_simp+
  from guards_one_sided [where st = driftStore and v = carol and i = 11 and j = 2
      and p = "idString 2" and a = False
      and t = "mkTweet 11 2 1 None ''t1''" and me = "carol\<lparr>u_likes := [11]\<rparr>"
      and tgt = "bob\<lparr>followers := [3]\<rparr>" and us = "[]" and g = followers] t m b c s
  show ?thesis by (auto simp: mkTweet_def)
qed

end
